theory Spec2Isabelle
  imports Main "HOL-Library.Sublist"
begin

section \<open>Strings\<close>

text \<open>
  Source strings are modelled as \<^typ>\<open>string\<close>; a character is one code unit in the range
  0..255.  In that range the regular-expression class \<^verbatim>\<open>\s\<close> and \<^verbatim>\<open>String.prototype.trim\<close>
  agree on TAB, LF, VT, FF, CR, SPACE and NBSP, and \<^verbatim>\<open>\w\<close> is \<^verbatim>\<open>[A-Za-z0-9_]\<close>.
\<close>

definition is_space :: "char \<Rightarrow> bool" where
  "is_space c = (c = CHR 0x09 \<or> c = CHR 0x0A \<or> c = CHR 0x0B \<or> c = CHR 0x0C \<or> c = CHR 0x0D
     \<or> c = CHR 0x20 \<or> c = CHR 0xA0)"

definition is_word :: "char \<Rightarrow> bool" where
  "is_word c = (let n = (of_char c :: nat) in
     (48 \<le> n \<and> n \<le> 57) \<or> (65 \<le> n \<and> n \<le> 90) \<or> n = 95 \<or> (97 \<le> n \<and> n \<le> 122))"

text \<open>\<^verbatim>\<open>s.trim()\<close>\<close>

definition trim :: "string \<Rightarrow> string" where
  "trim s = rev (dropWhile is_space (rev (dropWhile is_space s)))"

text \<open>\<^verbatim>\<open>xs.join("\n")\<close> and \<^verbatim>\<open>s.split("\n")\<close>\<close>

fun join_nl :: "string list \<Rightarrow> string" where
  "join_nl [] = []"
| "join_nl [l] = l"
| "join_nl (l # ls) = l @ CHR 0x0A # join_nl ls"

fun split_nl :: "string \<Rightarrow> string list" where
  "split_nl [] = [[]]"
| "split_nl (c # cs) =
     (if c = CHR 0x0A then [] # split_nl cs
      else (case split_nl cs of [] \<Rightarrow> [[c]] | l # ls \<Rightarrow> (c # l) # ls))"

text \<open>\<^verbatim>\<open>a || d\<close> on an optional string: \<^verbatim>\<open>undefined\<close> and the empty string are falsy.\<close>

fun js_or :: "string option \<Rightarrow> string \<Rightarrow> string" where
  "js_or None d = d"
| "js_or (Some []) d = d"
| "js_or (Some (c # cs)) d = c # cs"


section \<open>Regular expressions with backtracking\<close>

text \<open>
  The patterns of the source are sequences of literals, quantified character classes,
  capture-group brackets and the end anchor.  \<open>bt\<close> is the backtracking matcher at a fixed
  start position: it explores the alternatives in the priority order of the pattern (a
  greedy quantifier tries the longest repetition first, a lazy one the shortest) and returns
  the first alternative under which the whole pattern matches, as the text consumed by each
  pattern item together with the unread rest of the input.
\<close>

datatype cls = AnyC | SpaceC | WordC

fun in_cls :: "cls \<Rightarrow> char \<Rightarrow> bool" where
  "in_cls AnyC c = True"
| "in_cls SpaceC c = is_space c"
| "in_cls WordC c = is_word c"

datatype item = Lit string | StarG cls | PlusG cls | StarL cls | GOpen | GClose | EndA

type_synonym mres = "(string list \<times> string) option"

fun seg :: "string \<Rightarrow> mres \<Rightarrow> mres" where
  "seg l None = None"
| "seg l (Some (segs, rest)) = Some (l # segs, rest)"

text \<open>\<open>ext x m\<close> adds one more repetition, the character \<open>x\<close>, to the first item of \<open>m\<close>.\<close>

fun ext :: "char \<Rightarrow> mres \<Rightarrow> mres" where
  "ext x None = None"
| "ext x (Some ([], rest)) = None"
| "ext x (Some (l # segs, rest)) = Some ((x # l) # segs, rest)"

fun orelse :: "'a option \<Rightarrow> 'a option \<Rightarrow> 'a option" where
  "orelse (Some x) y = Some x"
| "orelse None y = y"

fun bt :: "item list \<Rightarrow> string \<Rightarrow> mres" where
  "bt [] s = Some ([], s)"
| "bt (Lit l # r) s = (if prefix l s then seg l (bt r (drop (length l) s)) else None)"
| "bt (StarG c # r) [] = seg [] (bt r [])"
| "bt (StarG c # r) (x # xs) =
     (if in_cls c x then orelse (ext x (bt (StarG c # r) xs)) (seg [] (bt r (x # xs)))
      else seg [] (bt r (x # xs)))"
| "bt (PlusG c # r) [] = None"
| "bt (PlusG c # r) (x # xs) = (if in_cls c x then ext x (bt (StarG c # r) xs) else None)"
| "bt (StarL c # r) [] = seg [] (bt r [])"
| "bt (StarL c # r) (x # xs) =
     orelse (seg [] (bt r (x # xs))) (if in_cls c x then ext x (bt (StarL c # r) xs) else None)"
| "bt (GOpen # r) s = seg [] (bt r s)"
| "bt (GClose # r) s = seg [] (bt r s)"
| "bt (EndA # r) s = (if s = [] then seg [] (bt r s) else None)"

text \<open>
  The text of the capture groups, from the text consumed by each item: a group is the
  concatenation of what the items between its brackets consumed.
\<close>

fun groups :: "item list \<Rightarrow> string list \<Rightarrow> string option \<Rightarrow> string list" where
  "groups (GOpen # r) (l # segs) cur = groups r segs (Some [])"
| "groups (GClose # r) (l # segs) (Some g) = g # groups r segs None"
| "groups (i # r) (l # segs) (Some g) = groups r segs (Some (g @ l))"
| "groups (i # r) (l # segs) None = groups r segs None"
| "groups r segs cur = []"

text \<open>
  A match object: the text before the match, the matched text (\<^verbatim>\<open>m[0]\<close>), the capture
  groups (\<^verbatim>\<open>m[1]\<close>, ...) and the text after the match.
\<close>

record rmatch =
  before :: string
  matched :: string
  caps :: "string list"
  after :: string

text \<open>
  \<open>search\<close> is one run of the matcher over the input: the start positions are tried from
  left to right and the first one with a match wins.
\<close>

fun search :: "item list \<Rightarrow> string \<Rightarrow> string \<Rightarrow> rmatch option" where
  "search re pre [] =
     (case bt re [] of None \<Rightarrow> None
      | Some (segs, rest) \<Rightarrow>
          Some \<lparr>before = pre, matched = concat segs, caps = groups re segs None, after = rest\<rparr>)"
| "search re pre (x # xs) =
     (case bt re (x # xs) of None \<Rightarrow> search re (pre @ [x]) xs
      | Some (segs, rest) \<Rightarrow>
          Some \<lparr>before = pre, matched = concat segs, caps = groups re segs None, after = rest\<rparr>)"

text \<open>\<^verbatim>\<open>s.match(re)\<close> for a pattern without the \<^verbatim>\<open>g\<close> flag.\<close>

definition exec :: "item list \<Rightarrow> string \<Rightarrow> rmatch option" where
  "exec re s = search re [] s"

text \<open>\<^verbatim>\<open>m?.[1]\<close>\<close>

fun group1 :: "rmatch option \<Rightarrow> string option" where
  "group1 None = None"
| "group1 (Some m) = (case caps m of [] \<Rightarrow> None | g # gs \<Rightarrow> Some g)"


subsection \<open>The matcher consumes a prefix of its input\<close>

lemma seg_SomeD: "seg l m = Some (segs, rest) \<Longrightarrow> \<exists>segs'. m = Some (segs', rest) \<and> segs = l # segs'"
  by (cases m) auto

lemma ext_SomeD: "ext x m = Some (segs, rest) \<Longrightarrow> \<exists>l segs'. m = Some (l # segs', rest) \<and> segs = (x # l) # segs'"
  by (cases "(x, m)" rule: ext.cases) auto

lemma orelse_SomeD: "orelse a b = Some y \<Longrightarrow> a = Some y \<or> b = Some y"
  by (cases a) auto

lemma bt_sound: "bt re s = Some (segs, rest) \<Longrightarrow> s = concat segs @ rest"
proof (induction re s arbitrary: segs rest rule: bt.induct)
  case (1 s)
  then show ?case by simp
next
  case (2 l r s)
  from "2.prems" have p: "prefix l s" and m: "seg l (bt r (drop (length l) s)) = Some (segs, rest)"
    by (simp_all split: if_splits)
  from seg_SomeD[OF m] obtain segs' where b: "bt r (drop (length l) s) = Some (segs', rest)"
    and s: "segs = l # segs'" by blast
  from "2.IH"[OF p b] have "drop (length l) s = concat segs' @ rest" .
  moreover from p have "s = l @ drop (length l) s" by (auto simp: prefix_def)
  ultimately show ?case using s by simp
next
  case (3 c r)
  from "3.prems" have m: "seg [] (bt r []) = Some (segs, rest)" by simp
  from seg_SomeD[OF m] "3.IH" show ?case by auto
next
  case (4 c r x xs)
  show ?case
  proof (cases "in_cls c x")
    case True
    with "4.prems" have "orelse (ext x (bt (StarG c # r) xs)) (seg [] (bt r (x # xs))) = Some (segs, rest)"
      by simp
    from orelse_SomeD[OF this] show ?thesis
    proof
      assume "ext x (bt (StarG c # r) xs) = Some (segs, rest)"
      from ext_SomeD[OF this] "4.IH"(1)[OF True] show ?thesis by auto
    next
      assume "seg [] (bt r (x # xs)) = Some (segs, rest)"
      from seg_SomeD[OF this] "4.IH"(2)[OF True] show ?thesis by auto
    qed
  next
    case False
    with "4.prems" have "seg [] (bt r (x # xs)) = Some (segs, rest)" by simp
    from seg_SomeD[OF this] "4.IH"(3)[OF False] show ?thesis by auto
  qed
next
  case (5 c r)
  then show ?case by simp
next
  case (6 c r x xs)
  from "6.prems" have t: "in_cls c x" and m: "ext x (bt (StarG c # r) xs) = Some (segs, rest)"
    by (simp_all split: if_splits)
  from ext_SomeD[OF m] "6.IH"[OF t] show ?case by auto
next
  case (7 c r)
  from "7.prems" have m: "seg [] (bt r []) = Some (segs, rest)" by simp
  from seg_SomeD[OF m] "7.IH" show ?case by auto
next
  case (8 c r x xs)
  from "8.prems" have "orelse (seg [] (bt r (x # xs))) (if in_cls c x then ext x (bt (StarL c # r) xs) else None) = Some (segs, rest)"
    by simp
  from orelse_SomeD[OF this] show ?case
  proof
    assume "seg [] (bt r (x # xs)) = Some (segs, rest)"
    from seg_SomeD[OF this] "8.IH"(1) show ?thesis by auto
  next
    assume a: "(if in_cls c x then ext x (bt (StarL c # r) xs) else None) = Some (segs, rest)"
    then have t: "in_cls c x" and m: "ext x (bt (StarL c # r) xs) = Some (segs, rest)"
      by (simp_all split: if_splits)
    from ext_SomeD[OF m] "8.IH"(2)[OF t] show ?thesis by auto
  qed
next
  case (9 r s)
  from "9.prems" have m: "seg [] (bt r s) = Some (segs, rest)" by simp
  from seg_SomeD[OF m] "9.IH" show ?case by auto
next
  case (10 r s)
  from "10.prems" have m: "seg [] (bt r s) = Some (segs, rest)" by simp
  from seg_SomeD[OF m] "10.IH" show ?case by auto
next
  case (11 r s)
  from "11.prems" have e: "s = []" and m: "seg [] (bt r s) = Some (segs, rest)"
    by (simp_all split: if_splits)
  from seg_SomeD[OF m] "11.IH"[OF e] show ?case by auto
qed


lemma search_sound:
  "search re pre s = Some m \<Longrightarrow> pre @ s = before m @ matched m @ after m"
proof (induction re pre s rule: search.induct)
  case (1 re pre)
  then show ?case by (auto split: option.splits dest: bt_sound)
next
  case (2 re pre x xs)
  show ?case
  proof (cases "bt re (x # xs)")
    case None
    with 2 show ?thesis by simp
  next
    case (Some a)
    obtain segs rest where a: "a = (segs, rest)" by (cases a)
    from Some a "2.prems"
    have m: "m = \<lparr>before = pre, matched = concat segs, caps = groups re segs None, after = rest\<rparr>"
      by simp
    from bt_sound[of re "x # xs" segs rest] Some a have "x # xs = concat segs @ rest" by simp
    with m show ?thesis by simp
  qed
qed


text \<open>
  \<^verbatim>\<open>s.match(re)\<close> for a pattern with the \<^verbatim>\<open>g\<close> flag: all matches from left to right, each
  search starting where the previous match ended (one code unit further after an empty
  match); \<^verbatim>\<open>null\<close> when there is none.
\<close>

function match_all :: "item list \<Rightarrow> string \<Rightarrow> string list" where
  "match_all re s =
     (case search re [] s of None \<Rightarrow> []
      | Some m \<Rightarrow>
          matched m #
            (if matched m = [] then (case after m of [] \<Rightarrow> [] | x # xs \<Rightarrow> match_all re xs)
             else match_all re (after m)))"
  by pat_completeness auto
termination
proof (relation "measure (\<lambda>(re, s). length s)")
  show "wf (measure (\<lambda>(re, s). length s))" by simp
next
  fix re s m x xs
  assume "search re [] s = Some m" "after m = x # xs"
  with search_sound[of re "[]" s m] have "length s = length (before m @ matched m @ x # xs)" by simp
  then show "((re, xs), (re, s)) \<in> measure (\<lambda>(re, s). length s)" by simp
next
  fix re s m
  assume "search re [] s = Some m" "matched m \<noteq> []"
  with search_sound[of re "[]" s m] have "length s = length (before m @ matched m @ after m)" "length (matched m) > 0" by simp_all
  then show "((re, after m), (re, s)) \<in> measure (\<lambda>(re, s). length s)" by simp
qed



declare match_all.simps [simp del]

definition match_g :: "item list \<Rightarrow> string \<Rightarrow> string list option" where
  "match_g re s = (case match_all re s of [] \<Rightarrow> None | m # ms \<Rightarrow> Some (m # ms))"


section \<open>Signature extraction\<close>

record ApiEntry =
  name :: string
  signature :: string
  description :: string

text \<open>\<^verbatim>\<open>/\/\*\*[\s\S]*?\*\/\s*\nnative\s+(\w+)\s+takes\s+([\s\S]*?)\s+returns\s+(\w+)/g\<close>\<close>

definition api_re :: "item list" where
  "api_re = [Lit ''/**'', StarL AnyC, Lit ''*/'', StarG SpaceC, Lit [CHR 0x0A], Lit ''native'',
     PlusG SpaceC, GOpen, PlusG WordC, GClose, PlusG SpaceC, Lit ''takes'', PlusG SpaceC,
     GOpen, StarL AnyC, GClose, PlusG SpaceC, Lit ''returns'', PlusG SpaceC,
     GOpen, PlusG WordC, GClose]"

text \<open>\<^verbatim>\<open>/native\s+(\w+)/\<close>\<close>

definition name_re :: "item list" where
  "name_re = [Lit ''native'', PlusG SpaceC, GOpen, PlusG WordC, GClose]"

text \<open>\<^verbatim>\<open>/takes\s+([\s\S]*?)\s+returns/\<close>\<close>

definition takes_re :: "item list" where
  "takes_re = [Lit ''takes'', PlusG SpaceC, GOpen, StarL AnyC, GClose, PlusG SpaceC, Lit ''returns'']"

text \<open>\<^verbatim>\<open>/returns\s+(\w+)/\<close>\<close>

definition returns_re :: "item list" where
  "returns_re = [Lit ''returns'', PlusG SpaceC, GOpen, PlusG WordC, GClose]"

text \<open>The three fields read off one matched block, as in the body of \<^verbatim>\<open>matches.map\<close>.\<close>

definition name_of :: "string \<Rightarrow> string" where
  "name_of m = js_or (group1 (exec name_re m)) ''Unknown Function''"

definition parameters_of :: "string \<Rightarrow> string" where
  "parameters_of m = js_or (map_option trim (group1 (exec takes_re m))) ''nothing''"

definition returnType_of :: "string \<Rightarrow> string" where
  "returnType_of m = js_or (group1 (exec returns_re m)) ''nothing''"

definition entry_of :: "string \<Rightarrow> ApiEntry" where
  "entry_of m =
     \<lparr>name = name_of m,
      signature = name_of m @ ''('' @ parameters_of m @ ''): '' @ returnType_of m,
      description = m\<rparr>"

definition parseApiDocumentation :: "string list \<Rightarrow> ApiEntry list" where
  "parseApiDocumentation texts =
     (let combinedText = join_nl texts
      in case match_g api_re combinedText of None \<Rightarrow> [] | Some matches \<Rightarrow> map entry_of matches)"


text \<open>
  The blocks of the declaration grammar: a comment \<^verbatim>\<open>/**\<close> ... \<^verbatim>\<open>*/\<close>, a line break and a
  declaration \<^verbatim>\<open>native <name> takes <params> returns <type>\<close>.  A block is well formed when
  the comment ends at its \<^verbatim>\<open>*/\<close> (no \<^verbatim>\<open>*/\<close> inside), name and type are identifiers, and
  the parameter text is not empty, has no whitespace at either end and does not hold the
  keyword \<^verbatim>\<open>returns\<close>.
\<close>

definition is_identifier :: "string \<Rightarrow> bool" where
  "is_identifier w \<longleftrightarrow> w \<noteq> [] \<and> (\<forall>c\<in>set w. is_word c)"

definition block :: "string \<Rightarrow> string \<Rightarrow> string \<Rightarrow> string \<Rightarrow> string" where
  "block body nm params ty =
     ''/**'' @ body @ ''*/'' @ [CHR 0x0A] @ ''native '' @ nm @ '' takes '' @ params @ '' returns '' @ ty"

definition well_formed :: "string \<Rightarrow> string \<Rightarrow> string \<Rightarrow> string \<Rightarrow> bool" where
  "well_formed body nm params ty \<longleftrightarrow>
     \<not> sublist ''*/'' body \<and> is_identifier nm \<and> is_identifier ty \<and>
     params \<noteq> [] \<and> \<not> is_space (hd params) \<and> \<not> is_space (last params) \<and>
     \<not> sublist ''returns'' params"


section \<open>The detail renderer: definitions\<close>

text \<open>\<^verbatim>\<open>s.replace(re, f)\<close> for a pattern without the \<^verbatim>\<open>g\<close> flag: the first match is replaced.\<close>

definition replace_first :: "item list \<Rightarrow> (rmatch \<Rightarrow> string) \<Rightarrow> string \<Rightarrow> string" where
  "replace_first re f s =
     (case search re [] s of None \<Rightarrow> s | Some m \<Rightarrow> before m @ f m @ after m)"

text \<open>\<^verbatim>\<open>s.replace(re, f)\<close> for a pattern with the \<^verbatim>\<open>g\<close> flag: every match is replaced.\<close>

function replace_all :: "item list \<Rightarrow> (rmatch \<Rightarrow> string) \<Rightarrow> string \<Rightarrow> string" where
  "replace_all re f s =
     (case search re [] s of None \<Rightarrow> s
      | Some m \<Rightarrow>
          before m @ f m @
            (if matched m = [] then (case after m of [] \<Rightarrow> [] | x # xs \<Rightarrow> x # replace_all re f xs)
             else replace_all re f (after m)))"
  by pat_completeness auto
termination
proof (relation "measure (\<lambda>(re, f, s). length s)")
  show "wf (measure (\<lambda>(re, f, s). length s))" by simp
next
  fix re :: "item list" and f :: "rmatch \<Rightarrow> string" and s m x xs
  assume "search re [] s = Some m" "after m = x # xs"
  with search_sound[of re "[]" s m] have "length s = length (before m @ matched m @ x # xs)" by simp
  then show "((re, f, xs), (re, f, s)) \<in> measure (\<lambda>(re, f, s). length s)" by simp
next
  fix re :: "item list" and f :: "rmatch \<Rightarrow> string" and s m
  assume "search re [] s = Some m" "matched m \<noteq> []"
  with search_sound[of re "[]" s m]
  have "length s = length (before m @ matched m @ after m)" "length (matched m) > 0" by simp_all
  then show "((re, f, after m), (re, f, s)) \<in> measure (\<lambda>(re, f, s). length s)" by simp
qed

declare replace_all.simps [simp del]

text \<open>\<^verbatim>\<open>$1\<close> in a replacement text.\<close>

definition dollar1 :: "rmatch \<Rightarrow> string" where
  "dollar1 m = (case caps m of [] \<Rightarrow> [] | g # gs \<Rightarrow> g)"

text \<open>\<^verbatim>\<open>/\s+$/\<close> and \<^verbatim>\<open>/(@\w+)/g\<close>\<close>

definition trailing_re :: "item list" where
  "trailing_re = [PlusG SpaceC, EndA]"

definition annotation_re :: "item list" where
  "annotation_re = [GOpen, Lit ''@'', PlusG WordC, GClose]"

definition span_annotation :: "rmatch \<Rightarrow> string" where
  "span_annotation m = ''<span class=\"annotation\">'' @ dollar1 m @ ''</span>''"

definition highlightedDescription :: "ApiEntry \<Rightarrow> string" where
  "highlightedDescription func =
     join_nl
       (map (\<lambda>line. replace_all annotation_re span_annotation line)
          (filter (\<lambda>line. \<not> prefix ''/**'' line \<and> \<not> prefix ''*/'' line)
             (map (\<lambda>line. replace_first trailing_re (\<lambda>m. []) line)
                (split_nl (description func)))))"


definition rstrip :: "string \<Rightarrow> string" where
  "rstrip l = rev (dropWhile is_space (rev l))"

function wrap_annotations :: "string \<Rightarrow> string" where
  "wrap_annotations [] = []"
| "wrap_annotations (c # cs) =
     (if c = CHR ''@'' \<and> takeWhile is_word cs \<noteq> []
      then ''<span class=\"annotation\">'' @ CHR ''@'' # takeWhile is_word cs @ ''</span>'' @
           wrap_annotations (dropWhile is_word cs)
      else c # wrap_annotations cs)"
  by pat_completeness auto
termination
  by (relation "measure length") (auto simp: length_dropWhile_le less_Suc_eq_le)

section \<open>The search session\<close>

record QuickPickItem =
  label :: string
  item_description :: string
  detail :: "string option"

text \<open>A thrown value, kept as the text that \<^verbatim>\<open>String(err)\<close> gives for it.\<close>

datatype js_error = Thrown string

fun String_of :: "js_error \<Rightarrow> string" where
  "String_of (Thrown t) = t"

text \<open>
  \<^verbatim>\<open>Promise.all(GITHUB_URLS.map((url) => axios.get(url)))\<close>.  The argument lists the
  requests in the order in which they settle, each with the index of its URL and its
  outcome.  The promise rejects with the reason of the first request that fails;
  when none fails it resolves to the bodies in the order of the URLs.
\<close>

fun first_rejection :: "(nat \<times> (js_error + string)) list \<Rightarrow> js_error option" where
  "first_rejection [] = None"
| "first_rejection ((i, Inl e) # evs) = Some e"
| "first_rejection ((i, Inr t) # evs) = first_rejection evs"

fun bodies :: "(nat \<times> (js_error + string)) list \<Rightarrow> string list" where
  "bodies [] = []"
| "bodies ((i, Inl e) # evs) = bodies evs"
| "bodies ((i, Inr t) # evs) = t # bodies evs"

definition Promise_all :: "(nat \<times> (js_error + string)) list \<Rightarrow> js_error + string list" where
  "Promise_all evs =
     (case first_rejection evs of Some e \<Rightarrow> Inl e | None \<Rightarrow> Inr (bodies (sort_key fst evs)))"

text \<open>
  \<^verbatim>\<open>new Fuse(apiData, {keys: ["name", "signature", "description"], threshold: 0.3,
  ignoreLocation: true, includeScore: true, minMatchCharLength: 2})\<close>: the index keeps the
  records it was built over; the options are the same in every session.
\<close>

datatype Fuse = new_Fuse (docs: "ApiEntry list")

text \<open>The variables that the three event handlers close over.\<close>

record closure =
  apiData :: "ApiEntry list"
  fuse :: Fuse

text \<open>
  A detail panel: its title, the entry it was opened for and the description part of its
  page.
\<close>

record panel =
  panel_title :: string
  shown :: ApiEntry
  description_html :: string

text \<open>What the session does to the quick pick, in order; \<open>Dismissed\<close> is the user closing it.\<close>

datatype qp_op = SetBusy bool | SetItems "QuickPickItem list" | Show | Hide | Dispose | Dismissed

record session =
  qp_title :: string
  qp_placeholder :: string
  qp_busy :: bool
  qp_items :: "QuickPickItem list"
  qp_visible :: bool
  qp_disposed :: bool
  handlers :: "closure option"
  panels :: "panel list"
  log :: "qp_op list"

definition set_busy :: "bool \<Rightarrow> session \<Rightarrow> session" where
  "set_busy b st = st\<lparr>qp_busy := b, log := log st @ [SetBusy b]\<rparr>"

definition set_items :: "QuickPickItem list \<Rightarrow> session \<Rightarrow> session" where
  "set_items xs st = st\<lparr>qp_items := xs, log := log st @ [SetItems xs]\<rparr>"

definition toItems :: "ApiEntry list \<Rightarrow> QuickPickItem list" where
  "toItems rows =
     map (\<lambda>r. \<lparr>label = name r, item_description = signature r, detail = None\<rparr>) (take 200 rows)"

text \<open>
  \<^verbatim>\<open>fuzzySearch\<close> up to its first \<^verbatim>\<open>await\<close>.  The import of the search library that is
  awaited there is taken to succeed.
\<close>

definition fuzzySearch_start :: session where
  "fuzzySearch_start =
     \<lparr>qp_title = ''JASS API Search'', qp_placeholder = ''Type to search'', qp_busy = True,
      qp_items = [\<lparr>label = ''Loading...'', item_description = ''Fetching documentation'',
                   detail = Some ''N/A''\<rparr>],
      qp_visible = True, qp_disposed = False, handlers = None, panels = [],
      log = [SetBusy True,
             SetItems [\<lparr>label = ''Loading...'', item_description = ''Fetching documentation'',
                        detail = Some ''N/A''\<rparr>],
             Show]\<rparr>"

text \<open>\<^verbatim>\<open>fuzzySearch\<close> from the point where the awaited \<^verbatim>\<open>Promise.all\<close> has settled.\<close>

definition fuzzySearch_settled :: "js_error + string list \<Rightarrow> session \<Rightarrow> session" where
  "fuzzySearch_settled outcome st =
     (case outcome of
        Inl err \<Rightarrow>
          set_items [\<lparr>label = ''Failed to fetch api data'',
                      item_description = ''Check network / urls'',
                      detail = Some (String_of err)\<rparr>] (set_busy False st)
      | Inr texts \<Rightarrow>
          (let apiData = parseApiDocumentation texts in
           if apiData = [] then
             set_items [\<lparr>label = ''No functions found'', item_description = ''Api docs are empty'',
                         detail = None\<rparr>] (set_busy False st)
           else
             (set_items (toItems apiData) (set_busy False st))
               \<lparr>handlers := Some \<lparr>apiData = apiData, fuse = new_Fuse apiData\<rparr>\<rparr>))"

definition fuzzySearch :: "(nat \<times> (js_error + string)) list \<Rightarrow> session" where
  "fuzzySearch evs = fuzzySearch_settled (Promise_all evs) fuzzySearch_start"

text \<open>\<^verbatim>\<open>qp.onDidHide(() => qp.dispose())\<close>, where it has been registered.\<close>

definition onDidHide :: "session \<Rightarrow> session" where
  "onDidHide st =
     (case handlers st of None \<Rightarrow> st
      | Some env \<Rightarrow> st\<lparr>qp_disposed := True, log := log st @ [Dispose]\<rparr>)"

text \<open>\<^verbatim>\<open>qp.hide()\<close>\<close>

definition qp_hide :: "session \<Rightarrow> session" where
  "qp_hide st =
     (if qp_visible st then onDidHide (st\<lparr>qp_visible := False, log := log st @ [Hide]\<rparr>)
      else st)"

text \<open>The user dismisses the quick pick.\<close>

definition dismiss :: "session \<Rightarrow> session" where
  "dismiss st =
     (if qp_visible st then onDidHide (st\<lparr>qp_visible := False, log := log st @ [Dismissed]\<rparr>)
      else st)"

text \<open>
  The handler of \<^verbatim>\<open>qp.onDidChangeValue\<close>; \<open>search\<close> is \<^verbatim>\<open>fuse.search(value).map((r) => r.item)\<close>,
  the ranking of the library.
\<close>

definition onDidChangeValue ::
  "(Fuse \<Rightarrow> string \<Rightarrow> ApiEntry list) \<Rightarrow> closure \<Rightarrow> string \<Rightarrow> session \<Rightarrow> session" where
  "onDidChangeValue fuse_search env v st =
     (if trim v = [] then set_items (toItems (apiData env)) st
      else
        (let results = fuse_search (fuse env) v in
         set_items
           (if results \<noteq> [] then toItems results
            else [\<lparr>label = ''no matches'', item_description = ''try different terms'',
                   detail = None\<rparr>]) st))"

text \<open>A library search that ranks no record for the query.\<close>

definition no_results :: "Fuse \<Rightarrow> string \<Rightarrow> ApiEntry list" where
  "no_results index query = []"

definition showFunctionDetails :: "ApiEntry \<Rightarrow> session \<Rightarrow> session" where
  "showFunctionDetails func st =
     st\<lparr>panels := panels st @
          [\<lparr>panel_title = name func, shown = func,
            description_html = highlightedDescription func\<rparr>]\<rparr>"

text \<open>The handler of \<^verbatim>\<open>qp.onDidChangeSelection\<close>.\<close>

definition onDidChangeSelection :: "closure \<Rightarrow> QuickPickItem list \<Rightarrow> session \<Rightarrow> session" where
  "onDidChangeSelection env sel st =
     (case sel of [] \<Rightarrow> st
      | picked # others \<Rightarrow>
          qp_hide (case find (\<lambda>r. name r = label picked) (apiData env) of
                     None \<Rightarrow> st
                   | Some chosen \<Rightarrow> showFunctionDetails chosen st))"


text \<open>
  The description transformation in the words of the specification: only the lines that are
  exactly \<^verbatim>\<open>/**\<close> or \<^verbatim>\<open>*/\<close> are dropped.
\<close>

definition spec_highlightedDescription :: "string \<Rightarrow> string" where
  "spec_highlightedDescription d =
     join_nl
       (map wrap_annotations
          (filter (\<lambda>line. line \<noteq> ''/**'' \<and> line \<noteq> ''*/'') (map rstrip (split_nl d))))"

text \<open>The operations on the quick pick that follow the user's dismissal.\<close>

definition after_dismissal :: "qp_op list \<Rightarrow> qp_op list" where
  "after_dismissal ops = drop 1 (dropWhile (\<lambda>x. x \<noteq> Dismissed) ops)"


section \<open>Extraction on the documented examples\<close>

lemmas eval_defs =
  parseApiDocumentation_def match_g_def match_all.simps entry_of_def name_of_def
  parameters_of_def returnType_of_def exec_def api_re_def name_re_def takes_re_def
  returns_re_def trim_def is_space_def is_word_def

text \<open>
  C1.  For the single text \<^verbatim>\<open>/** doc */\nnative FooBar takes integer a returns boolean\<close> the
  extractor yields exactly one entry; its name is \<^verbatim>\<open>FooBar\<close> and its signature is
  \<^verbatim>\<open>FooBar(integer a): boolean\<close>.
\<close>

theorem C1_foobar:
  "parseApiDocumentation [''/** doc */\<newline>native FooBar takes integer a returns boolean''] =
     [\<lparr>name = ''FooBar'', signature = ''FooBar(integer a): boolean'',
       description = ''/** doc */\<newline>native FooBar takes integer a returns boolean''\<rparr>]"
  by (simp add: eval_defs)

text \<open>
  C3.  The name of an entry is read by \<^verbatim>\<open>/native\s+(\w+)/\<close> from the whole matched block,
  comment included.  When the comment holds the text \<^verbatim>\<open>native\<close> followed by a word, the entry
  is named after that word and not after the declared function: the block below declares
  \<^verbatim>\<open>Foo\<close> and is extracted under the name \<^verbatim>\<open>is\<close>.
\<close>

theorem C3_name_from_comment:
  "parseApiDocumentation
     [''/** This native is unsafe */\<newline>native Foo takes nothing returns nothing''] =
     [\<lparr>name = ''is'', signature = ''is(nothing): nothing'',
       description = ''/** This native is unsafe */\<newline>native Foo takes nothing returns nothing''\<rparr>]"
  by (simp add: eval_defs)


text \<open>
  C4.  For \<^verbatim>\<open>/** doc */\nnative Baz takes nothing returns nothing\<close> the signature is
  \<^verbatim>\<open>Baz(nothing): nothing\<close>, and a declaration with empty parameter text that ends the
  input gets the default \<^verbatim>\<open>nothing\<close> as well.  But when such a declaration is followed by
  another block, the whitespace after \<^verbatim>\<open>takes\<close> is consumed greedily and the lazy parameter
  group runs on to the \<^verbatim>\<open>returns\<close> of the next declaration: the two blocks become one
  entry, and its parameters component is the text in between, not \<^verbatim>\<open>nothing\<close>.
\<close>

theorem C4_empty_parameters_run_on:
  "parseApiDocumentation [''/** doc */\<newline>native Baz takes nothing returns nothing''] =
     [\<lparr>name = ''Baz'', signature = ''Baz(nothing): nothing'',
       description = ''/** doc */\<newline>native Baz takes nothing returns nothing''\<rparr>]
   \<and> parseApiDocumentation [''/** doc */\<newline>native Baz takes  returns nothing''] =
     [\<lparr>name = ''Baz'', signature = ''Baz(nothing): nothing'',
       description = ''/** doc */\<newline>native Baz takes  returns nothing''\<rparr>]
   \<and> parseApiDocumentation
       [''/** doc */\<newline>native Baz takes  returns nothing\<newline>/** b */\<newline>native B takes nothing returns nothing''] =
     [\<lparr>name = ''Baz'',
       signature = ''Baz(returns nothing\<newline>/** b */\<newline>native B takes nothing): nothing'',
       description = ''/** doc */\<newline>native Baz takes  returns nothing\<newline>/** b */\<newline>native B takes nothing returns nothing''\<rparr>]"
  by (simp add: eval_defs)


section \<open>Consecutive blocks\<close>

lemma word_not_space: "is_word c \<Longrightarrow> \<not> is_space c"
  by (auto simp: is_word_def is_space_def)

lemma bt_Lit: "bt r s = Some (segs, rest) \<Longrightarrow> bt (Lit l # r) (l @ s) = Some (l # segs, rest)"
  by simp

lemma bt_StarG_run:
  assumes "\<forall>c\<in>set w. in_cls k c" and "s = [] \<or> \<not> in_cls k (hd s)"
    and "bt r s = Some (segs, rest)"
  shows "bt (StarG k # r) (w @ s) = Some (w # segs, rest)"
  using assms
proof (induction w)
  case Nil
  then show ?case by (cases s) auto
next
  case (Cons a w)
  then show ?case by simp
qed

lemma bt_PlusG_run:
  assumes "w \<noteq> []" and "\<forall>c\<in>set w. in_cls k c" and "s = [] \<or> \<not> in_cls k (hd s)"
    and "bt r s = Some (segs, rest)"
  shows "bt (PlusG k # r) (w @ s) = Some (w # segs, rest)"
proof -
  from assms(1) obtain a w' where w: "w = a # w'" by (cases w) auto
  with assms(2) have "\<forall>c\<in>set w'. in_cls k c" "in_cls k a" by auto
  with bt_StarG_run[OF this(1) assms(3,4)] w show ?thesis by simp
qed

lemma bt_StarG_backoff:
  assumes "\<forall>c\<in>set u. in_cls k c" and "in_cls k x" and "s = [] \<or> \<not> in_cls k (hd s)"
    and "bt r s = None" and "bt r (x # s) = Some (segs, rest)"
  shows "bt (StarG k # r) (u @ x # s) = Some (u # segs, rest)"
  using assms
proof (induction u)
  case Nil
  then have "bt (StarG k # r) s = None" by (cases s) auto
  with Nil show ?case by simp
next
  case (Cons a u)
  then show ?case by simp
qed

lemma bt_StarL_run:
  assumes "\<forall>v. v \<noteq> [] \<and> suffix v w \<longrightarrow> bt r (v @ s) = None" and "\<forall>c\<in>set w. in_cls k c"
    and "bt r s = Some (segs, rest)"
  shows "bt (StarL k # r) (w @ s) = Some (w # segs, rest)"
  using assms
proof (induction w)
  case Nil
  then show ?case by (cases s) auto
next
  case (Cons a w)
  from Cons.prems(1) have "bt r ((a # w) @ s) = None" by (metis list.distinct(1) suffix_order.refl)
  then have n: "bt r (a # w @ s) = None" by simp
  from Cons.prems(1) have "\<forall>v. v \<noteq> [] \<and> suffix v w \<longrightarrow> bt r (v @ s) = None"
    by (simp add: suffix_Cons)
  from Cons.IH[OF this] Cons.prems have "bt (StarL k # r) (w @ s) = Some (w # segs, rest)" by simp
  with n Cons.prems(2) show ?case by simp
qed

lemma bt_StarG_fail:
  assumes "\<forall>c\<in>set w. in_cls k c" and "s = [] \<or> \<not> in_cls k (hd s)"
    and "\<forall>v. suffix v w \<longrightarrow> bt r (v @ s) = None"
  shows "bt (StarG k # r) (w @ s) = None"
  using assms
proof (induction w)
  case Nil
  then show ?case by (cases s) auto
next
  case (Cons a w)
  from Cons.prems(3) have "bt r ((a # w) @ s) = None" by (metis suffix_order.refl)
  then have n: "bt r (a # w @ s) = None" by simp
  from Cons.prems(3) have "\<forall>v. suffix v w \<longrightarrow> bt r (v @ s) = None" by (simp add: suffix_Cons)
  from Cons.IH[OF _ Cons.prems(2) this] Cons.prems(1) have "bt (StarG k # r) (w @ s) = None" by simp
  with n Cons.prems(1) show ?case by simp
qed


lemma bt_Lit_fail: "\<not> prefix l s \<Longrightarrow> bt (Lit l # r) s = None"
  by simp

lemma returns_not_prefix:
  assumes "\<not> sublist ''returns'' p" and "suffix v p" and "v \<noteq> []"
  shows "\<not> prefix ''returns'' (v @ '' returns '' @ Y)"
proof
  assume "prefix ''returns'' (v @ '' returns '' @ Y)"
  then consider "prefix ''returns'' v"
    | us where "''returns'' = v @ us" "prefix us ('' returns '' @ Y)"
    by (auto simp: prefix_append)
  then show False
  proof cases
    case 1
    then have "sublist ''returns'' v" by (rule prefix_imp_sublist)
    moreover from assms(2) have "sublist v p" by (rule suffix_imp_sublist)
    ultimately show False using assms(1) by (metis sublist_order.order.trans)
  next
    case 2
    show False
    proof (cases us)
      case Nil
      with 2 have "v = ''returns''" by simp
      with assms(2) have "sublist ''returns'' p" by (simp add: suffix_imp_sublist)
      with assms(1) show False by simp
    next
      case (Cons u us')
      with 2(2) have "u = CHR '' ''" by simp
      with 2(1) Cons have "CHR '' '' \<in> set ''returns''"
        by (metis in_set_conv_decomp)
      then show False by simp
    qed
  qed
qed

lemma returns_clause_fails_star:
  assumes "\<not> sublist ''returns'' p" and "\<not> is_space (last p)"
  shows "suffix v p \<Longrightarrow> v \<noteq> [] \<Longrightarrow>
    bt (StarG SpaceC # Lit ''returns'' # r) (v @ '' returns '' @ Y) = None"
proof (induction v)
  case Nil
  then show ?case by simp
next
  case (Cons a v)
  have "bt (Lit ''returns'' # r) ((a # v) @ '' returns '' @ Y) = None"
    using returns_not_prefix[OF assms(1) Cons.prems(1), of Y] by (intro bt_Lit_fail) simp
  then have lit: "bt (Lit ''returns'' # r) (a # v @ '' returns '' @ Y) = None"
    by (simp only: append_Cons)
  show ?case
  proof (cases "is_space a")
    case False
    with lit show ?thesis by simp
  next
    case True
    have "v \<noteq> []"
    proof
      assume "v = []"
      with Cons.prems(1) have "last p = a" by (auto simp: suffix_def)
      with True assms(2) show False by simp
    qed
    moreover from Cons.prems(1) have "suffix v p" by (rule suffix_ConsD)
    ultimately have "bt (StarG SpaceC # Lit ''returns'' # r) (v @ '' returns '' @ Y) = None"
      by (rule Cons.IH[rotated])
    with lit True show ?thesis by simp
  qed
qed

lemma returns_clause_fails:
  assumes "\<not> sublist ''returns'' p" and "\<not> is_space (last p)" and "suffix v p" and "v \<noteq> []"
  shows "bt (PlusG SpaceC # Lit ''returns'' # r) (v @ '' returns '' @ Y) = None"
proof -
  from assms(4) obtain a v' where v: "v = a # v'" by (cases v) auto
  show ?thesis
  proof (cases "is_space a")
    case False
    with v show ?thesis by simp
  next
    case True
    have "v' \<noteq> []"
    proof
      assume "v' = []"
      with assms(3) v have "last p = a" by (auto simp: suffix_def)
      with True assms(2) show False by simp
    qed
    moreover from assms(3) v have "suffix v' p" by (auto dest: suffix_ConsD)
    ultimately have "bt (StarG SpaceC # Lit ''returns'' # r) (v' @ '' returns '' @ Y) = None"
      by (rule returns_clause_fails_star[OF assms(1,2), rotated])
    with v True show ?thesis by simp
  qed
qed

lemma comment_end_not_prefix:
  assumes "\<not> sublist ''*/'' body" and "suffix v body" and "v \<noteq> []"
  shows "\<not> prefix ''*/'' (v @ ''*/'' @ X)"
proof
  assume p: "prefix ''*/'' (v @ ''*/'' @ X)"
  from assms(3) obtain a v' where v: "v = a # v'" by (cases v) auto
  show False
  proof (cases v')
    case Nil
    with p v show False by simp
  next
    case (Cons b v'')
    with p v have "prefix ''*/'' v" by simp
    then have "sublist ''*/'' v" by (rule prefix_imp_sublist)
    moreover from assms(2) have "sublist v body" by (rule suffix_imp_sublist)
    ultimately show False using assms(1) by (metis sublist_order.order.trans)
  qed
qed


lemma bt_block:
  assumes wf: "well_formed body nm params ty" and t: "t = [] \<or> \<not> is_word (hd t)"
  shows "\<exists>segs. bt api_re (block body nm params ty @ t) = Some (segs, t)"
proof -
  from wf have body: "\<not> sublist ''*/'' body" and nm: "nm \<noteq> []" "\<forall>c\<in>set nm. is_word c"
    and ty: "ty \<noteq> []" "\<forall>c\<in>set ty. is_word c" and ps: "params \<noteq> []" "\<not> is_space (hd params)"
    "\<not> is_space (last params)" "\<not> sublist ''returns'' params"
    by (simp_all add: well_formed_def is_identifier_def)
  define r20 where "r20 = [PlusG WordC, GClose]"
  define r18 where "r18 = PlusG SpaceC # GOpen # r20"
  define r16 where "r16 = PlusG SpaceC # Lit ''returns'' # r18"
  define r14 where "r14 = StarL AnyC # GClose # r16"
  define r12 where "r12 = PlusG SpaceC # GOpen # r14"
  define r10 where "r10 = PlusG SpaceC # Lit ''takes'' # r12"
  define r8 where "r8 = PlusG WordC # GClose # r10"
  define r6 where "r6 = PlusG SpaceC # GOpen # r8"
  define r4 where "r4 = Lit [CHR 0x0A] # Lit ''native'' # r6"
  define r2 where "r2 = Lit ''*/'' # StarG SpaceC # r4"
  have re: "api_re = Lit ''/**'' # StarL AnyC # r2"
    by (simp add: api_re_def r2_def r4_def r6_def r8_def r10_def r12_def r14_def r16_def
        r18_def r20_def)
  define s18 where "s18 = ty @ t"
  define s17 where "s17 = ''returns'' @ '' '' @ s18"
  define s12 where "s12 = params @ '' '' @ s17"
  define s11 where "s11 = ''takes'' @ '' '' @ s12"
  define s8 where "s8 = nm @ '' '' @ s11"
  define s5 where "s5 = ''native'' @ '' '' @ s8"
  define s2 where "s2 = ''*/'' @ [CHR 0x0A] @ s5"
  have whole: "block body nm params ty @ t = ''/**'' @ body @ s2"
    by (simp add: block_def s2_def s5_def s8_def s11_def s12_def s17_def s18_def)
  have h20: "bt r20 (ty @ t) = Some ([ty, []], t)"
    unfolding r20_def using ty t by (intro bt_PlusG_run) simp_all
  have "s18 = [] \<or> \<not> in_cls SpaceC (hd s18)"
    using ty by (simp add: s18_def word_not_space)
  with h20 have h18: "bt r18 ('' '' @ s18) = Some (['' '', [], ty, []], t)"
    unfolding r18_def by (intro bt_PlusG_run) (simp_all add: s18_def is_space_def)
  then have h17: "bt (Lit ''returns'' # r18) s17 = Some ([''returns'', '' '', [], ty, []], t)"
    unfolding s17_def by (rule bt_Lit)
  have "s17 = [] \<or> \<not> in_cls SpaceC (hd s17)" by (simp add: s17_def is_space_def)
  with h17 have h16: "bt r16 ('' '' @ s17) = Some (['' '', ''returns'', '' '', [], ty, []], t)"
    unfolding r16_def by (intro bt_PlusG_run) (simp_all add: is_space_def)
  have f16: "bt (GClose # r16) (v @ '' '' @ s17) = None" if "v \<noteq> []" "suffix v params" for v
  proof -
    have "bt r16 (v @ '' returns '' @ s18) = None"
      unfolding r16_def using ps(4,3) that(2,1) by (rule returns_clause_fails)
    then show ?thesis by (simp add: s17_def)
  qed
  from h16 have "bt (GClose # r16) ('' '' @ s17) = Some ([[], '' '', ''returns'', '' '', [], ty, []], t)"
    by simp
  then have h14: "bt r14 (params @ '' '' @ s17) =
      Some ([params, [], '' '', ''returns'', '' '', [], ty, []], t)"
    unfolding r14_def using f16 by (intro bt_StarL_run) simp_all
  then have "bt (GOpen # r14) s12 = Some ([[], params, [], '' '', ''returns'', '' '', [], ty, []], t)"
    by (simp add: s12_def)
  moreover have "s12 = [] \<or> \<not> in_cls SpaceC (hd s12)" using ps by (simp add: s12_def)
  ultimately have h12: "bt r12 ('' '' @ s12) =
      Some (['' '', [], params, [], '' '', ''returns'', '' '', [], ty, []], t)"
    unfolding r12_def by (intro bt_PlusG_run) (simp_all add: is_space_def)
  then have h11: "bt (Lit ''takes'' # r12) s11 =
      Some ([''takes'', '' '', [], params, [], '' '', ''returns'', '' '', [], ty, []], t)"
    unfolding s11_def by (rule bt_Lit)
  have "s11 = [] \<or> \<not> in_cls SpaceC (hd s11)" by (simp add: s11_def is_space_def)
  with h11 have h10: "bt r10 ('' '' @ s11) =
      Some (['' '', ''takes'', '' '', [], params, [], '' '', ''returns'', '' '', [], ty, []], t)"
    unfolding r10_def by (intro bt_PlusG_run) (simp_all add: is_space_def)
  then have "bt (GClose # r10) ('' '' @ s11) =
      Some ([[], '' '', ''takes'', '' '', [], params, [], '' '', ''returns'', '' '', [], ty, []], t)"
    by simp
  moreover have "'' '' @ s11 = [] \<or> \<not> in_cls WordC (hd ('' '' @ s11))" by (simp add: is_word_def)
  ultimately have h8: "bt r8 (nm @ '' '' @ s11) =
      Some ([nm, [], '' '', ''takes'', '' '', [], params, [], '' '', ''returns'', '' '', [], ty, []], t)"
    unfolding r8_def using nm by (intro bt_PlusG_run) simp_all
  then have "bt (GOpen # r8) s8 =
      Some ([[], nm, [], '' '', ''takes'', '' '', [], params, [], '' '', ''returns'', '' '', [], ty, []], t)"
    by (simp add: s8_def)
  moreover have "s8 = [] \<or> \<not> in_cls SpaceC (hd s8)" using nm by (simp add: s8_def word_not_space)
  ultimately have h6: "bt r6 ('' '' @ s8) =
      Some (['' '', [], nm, [], '' '', ''takes'', '' '', [], params, [], '' '', ''returns'', '' '', [], ty, []], t)"
    unfolding r6_def by (intro bt_PlusG_run) (simp_all add: is_space_def)
  then have "bt (Lit ''native'' # r6) s5 =
      Some ([''native'', '' '', [], nm, [], '' '', ''takes'', '' '', [], params, [], '' '', ''returns'', '' '', [], ty, []], t)"
    unfolding s5_def by (rule bt_Lit)
  then have h4: "bt r4 ([CHR 0x0A] @ s5) =
      Some ([[CHR 0x0A], ''native'', '' '', [], nm, [], '' '', ''takes'', '' '', [], params, [], '' '', ''returns'', '' '', [], ty, []], t)"
    unfolding r4_def by (rule bt_Lit)
  have n4: "bt r4 s5 = None" unfolding r4_def by (rule bt_Lit_fail) (simp add: s5_def)
  have "s5 = [] \<or> \<not> in_cls SpaceC (hd s5)" by (simp add: s5_def is_space_def)
  with n4 h4 have h3: "bt (StarG SpaceC # r4) ([] @ CHR 0x0A # s5) =
      Some ([[], [CHR 0x0A], ''native'', '' '', [], nm, [], '' '', ''takes'', '' '', [], params, [], '' '', ''returns'', '' '', [], ty, []], t)"
    by (intro bt_StarG_backoff) (simp_all add: is_space_def)
  then have "bt (StarG SpaceC # r4) ([CHR 0x0A] @ s5) =
      Some ([[], [CHR 0x0A], ''native'', '' '', [], nm, [], '' '', ''takes'', '' '', [], params, [], '' '', ''returns'', '' '', [], ty, []], t)"
    by (simp only: append_Nil append_Cons)
  then have h2: "bt r2 s2 =
      Some ([''*/'', [], [CHR 0x0A], ''native'', '' '', [], nm, [], '' '', ''takes'', '' '', [], params, [], '' '', ''returns'', '' '', [], ty, []], t)"
    unfolding r2_def s2_def by (rule bt_Lit)
  have f2: "bt r2 (v @ s2) = None" if "v \<noteq> []" "suffix v body" for v
    unfolding r2_def s2_def
    using comment_end_not_prefix[OF body that(2,1), of "[CHR 0x0A] @ s5"] by (intro bt_Lit_fail)
  from h2 f2 have h1: "bt (StarL AnyC # r2) (body @ s2) =
      Some ([body, ''*/'', [], [CHR 0x0A], ''native'', '' '', [], nm, [], '' '', ''takes'', '' '', [], params, [], '' '', ''returns'', '' '', [], ty, []], t)"
    by (intro bt_StarL_run) simp_all
  then have "bt (Lit ''/**'' # StarL AnyC # r2) (''/**'' @ body @ s2) =
      Some ([''/**'', body, ''*/'', [], [CHR 0x0A], ''native'', '' '', [], nm, [], '' '', ''takes'', '' '', [], params, [], '' '', ''returns'', '' '', [], ty, []], t)"
    by (rule bt_Lit)
  then show ?thesis unfolding re whole by blast
qed


lemma search_hit:
  "bt re s = Some (segs, rest) \<Longrightarrow>
   search re pre s = Some \<lparr>before = pre, matched = concat segs, caps = groups re segs None, after = rest\<rparr>"
  by (cases s) simp_all

lemma search_skip:
  "\<forall>v. v \<noteq> [] \<and> suffix v w \<longrightarrow> bt re (v @ s) = None \<Longrightarrow> search re pre (w @ s) = search re (pre @ w) s"
proof (induction w arbitrary: pre)
  case Nil
  then show ?case by simp
next
  case (Cons a w)
  from Cons.prems have "bt re ((a # w) @ s) = None" by (metis list.distinct(1) suffix_order.refl)
  then have n: "bt re (a # w @ s) = None" by simp
  from Cons.prems have "\<forall>v. v \<noteq> [] \<and> suffix v w \<longrightarrow> bt re (v @ s) = None"
    by (simp add: suffix_Cons)
  from Cons.IH[OF this, of "pre @ [a]"] n show ?case by simp
qed

lemma api_re_space: "is_space c \<Longrightarrow> bt api_re (c # s) = None"
  by (auto simp: api_re_def is_space_def)

lemma block_nonempty: "block body nm params ty \<noteq> []"
  by (simp add: block_def)

lemma search_block:
  assumes "well_formed body nm params ty" and "t = [] \<or> \<not> is_word (hd t)"
    and "\<forall>c\<in>set sep. is_space c"
  shows "\<exists>m. search api_re [] (sep @ block body nm params ty @ t) = Some m \<and>
    matched m = block body nm params ty \<and> after m = t"
proof -
  from bt_block[OF assms(1,2)] obtain segs
    where b: "bt api_re (block body nm params ty @ t) = Some (segs, t)" by blast
  from bt_sound[OF b] have c: "concat segs = block body nm params ty" by simp
  have "bt api_re (v @ block body nm params ty @ t) = None" if "v \<noteq> []" "suffix v sep" for v
  proof -
    from that(1) obtain a v' where v: "v = a # v'" by (cases v) auto
    with that(2) have "a \<in> set sep" by (auto simp: suffix_def)
    with assms(3) have "is_space a" by simp
    with v show ?thesis by (simp add: api_re_space)
  qed
  then have "search api_re [] (sep @ block body nm params ty @ t) =
      search api_re ([] @ sep) (block body nm params ty @ t)"
    by (intro search_skip) simp
  with search_hit[OF b, of "[] @ sep"] c show ?thesis by simp
qed

lemma match_all_block:
  assumes "well_formed body nm params ty" and "t = [] \<or> \<not> is_word (hd t)"
    and "\<forall>c\<in>set sep. is_space c"
  shows "match_all api_re (sep @ block body nm params ty @ t) =
    block body nm params ty # match_all api_re t"
proof -
  from search_block[OF assms] obtain m
    where "search api_re [] (sep @ block body nm params ty @ t) = Some m"
      "matched m = block body nm params ty" "after m = t" by blast
  then show ?thesis
    by (simp add: match_all.simps[of api_re "sep @ block body nm params ty @ t"] block_nonempty)
qed

lemma match_all_empty: "match_all api_re [] = []"
  by (simp add: match_all.simps api_re_def)

lemma match_all_one:
  assumes "well_formed body nm params ty"
  shows "match_all api_re (block body nm params ty) = [block body nm params ty]"
  using match_all_block[OF assms, of "[]" "[]"] by (simp add: match_all_empty)

lemma match_all_two:
  assumes "well_formed body1 nm1 ps1 ty1" and "well_formed body2 nm2 ps2 ty2"
    and "\<forall>c\<in>set sep. is_space c"
  shows "match_all api_re (block body1 nm1 ps1 ty1 @ sep @ block body2 nm2 ps2 ty2) =
    [block body1 nm1 ps1 ty1, block body2 nm2 ps2 ty2]"
proof -
  let ?t = "sep @ block body2 nm2 ps2 ty2"
  have "\<not> is_word (hd ?t)"
  proof (cases sep)
    case Nil
    then show ?thesis by (simp add: block_def is_word_def)
  next
    case (Cons a sep')
    with assms(3) show ?thesis by (auto dest: word_not_space)
  qed
  then have "?t = [] \<or> \<not> is_word (hd ?t)" by simp
  from match_all_block[OF assms(1) this, of "[]"]
  have "match_all api_re (block body1 nm1 ps1 ty1 @ ?t) = block body1 nm1 ps1 ty1 # match_all api_re ?t"
    by simp
  moreover from match_all_block[OF assms(2) _ assms(3), of "[]"]
  have "match_all api_re ?t = [block body2 nm2 ps2 ty2]" by (simp add: match_all_empty)
  ultimately show ?thesis by simp
qed

text \<open>
  C2.  For a text made of two well-formed blocks, one after the other with at most
  whitespace between them, the extractor yields exactly two entries: the entry it yields
  for the first block alone followed by the entry it yields for the second block alone,
  each with its block as description.
\<close>

theorem C2_two_blocks:
  assumes "well_formed body1 nm1 ps1 ty1" and "well_formed body2 nm2 ps2 ty2"
    and "\<forall>c\<in>set sep. is_space c"
  shows "parseApiDocumentation [block body1 nm1 ps1 ty1 @ sep @ block body2 nm2 ps2 ty2] =
           parseApiDocumentation [block body1 nm1 ps1 ty1] @
           parseApiDocumentation [block body2 nm2 ps2 ty2]
     \<and> length (parseApiDocumentation [block body1 nm1 ps1 ty1 @ sep @ block body2 nm2 ps2 ty2]) = 2
     \<and> length (parseApiDocumentation [block body1 nm1 ps1 ty1]) = 1
     \<and> length (parseApiDocumentation [block body2 nm2 ps2 ty2]) = 1
     \<and> map description
          (parseApiDocumentation [block body1 nm1 ps1 ty1 @ sep @ block body2 nm2 ps2 ty2]) =
         [block body1 nm1 ps1 ty1, block body2 nm2 ps2 ty2]"
  using match_all_two[OF assms] match_all_one[OF assms(1)] match_all_one[OF assms(2)]
  by (simp add: parseApiDocumentation_def match_g_def entry_of_def)

theorem C2_two_blocks_witness:
  "block '' Adds. '' ''Add'' ''integer a, integer b'' ''integer'' @ [CHR 0x0A] @
       block [] ''Stop'' ''nothing'' ''nothing''
     = ''/** Adds. */\<newline>native Add takes integer a, integer b returns integer\<newline>/***/\<newline>native Stop takes nothing returns nothing''
   \<and> parseApiDocumentation
       [''/** Adds. */\<newline>native Add takes integer a, integer b returns integer\<newline>/***/\<newline>native Stop takes nothing returns nothing'']
     = [\<lparr>name = ''Add'', signature = ''Add(integer a, integer b): integer'',
          description = ''/** Adds. */\<newline>native Add takes integer a, integer b returns integer''\<rparr>,
        \<lparr>name = ''Stop'', signature = ''Stop(nothing): nothing'',
          description = ''/***/\<newline>native Stop takes nothing returns nothing''\<rparr>]"
proof -
  have w1: "well_formed '' Adds. '' ''Add'' ''integer a, integer b'' ''integer''"
    by (simp add: well_formed_def is_identifier_def is_word_def is_space_def sublist_code)
  have w2: "well_formed [] ''Stop'' ''nothing'' ''nothing''"
    by (simp add: well_formed_def is_identifier_def is_word_def is_space_def sublist_code)
  have s: "\<forall>c\<in>set [CHR 0x0A]. is_space c" by (simp add: is_space_def)
  have b: "block '' Adds. '' ''Add'' ''integer a, integer b'' ''integer'' @ [CHR 0x0A] @
       block [] ''Stop'' ''nothing'' ''nothing''
     = ''/** Adds. */\<newline>native Add takes integer a, integer b returns integer\<newline>/***/\<newline>native Stop takes nothing returns nothing''"
    by (simp add: block_def)
  have p1: "parseApiDocumentation [block '' Adds. '' ''Add'' ''integer a, integer b'' ''integer''] =
      [\<lparr>name = ''Add'', signature = ''Add(integer a, integer b): integer'',
          description = ''/** Adds. */\<newline>native Add takes integer a, integer b returns integer''\<rparr>]"
    by (simp add: block_def eval_defs)
  have p2: "parseApiDocumentation [block [] ''Stop'' ''nothing'' ''nothing''] =
      [\<lparr>name = ''Stop'', signature = ''Stop(nothing): nothing'',
          description = ''/***/\<newline>native Stop takes nothing returns nothing''\<rparr>]"
    by (simp add: block_def eval_defs)
  from C2_two_blocks[OF w1 w2 s] have
    "parseApiDocumentation [block '' Adds. '' ''Add'' ''integer a, integer b'' ''integer'' @ [CHR 0x0A] @
       block [] ''Stop'' ''nothing'' ''nothing''] =
     parseApiDocumentation [block '' Adds. '' ''Add'' ''integer a, integer b'' ''integer''] @
     parseApiDocumentation [block [] ''Stop'' ''nothing'' ''nothing'']" by blast
  with b p1 p2 show ?thesis by (simp only: append_Cons append_Nil simp_thms)
qed


section \<open>The detail renderer\<close>

subsection \<open>The two line transformations, without regular expressions\<close>

lemma bt_spaces_end:
  "bt [StarG SpaceC, EndA] v = (if \<forall>c\<in>set v. is_space c then Some ([v, []], []) else None)"
  by (induction v) simp_all

lemma bt_trailing:
  "bt trailing_re v = (if v \<noteq> [] \<and> (\<forall>c\<in>set v. is_space c) then Some ([v, []], []) else None)"
  by (cases v) (simp_all add: trailing_re_def bt_spaces_end)

lemma rstrip_Cons:
  "rstrip (x # xs) = (if \<forall>c\<in>set (x # xs). is_space c then [] else x # rstrip xs)"
  by (auto simp: rstrip_def dropWhile_append)

lemma search_trailing:
  "(case search trailing_re pre s of None \<Rightarrow> pre @ s | Some m \<Rightarrow> before m @ after m) = pre @ rstrip s"
proof (induction s arbitrary: pre)
  case Nil
  show ?case by (simp add: bt_trailing rstrip_def)
next
  case (Cons x xs)
  show ?case
  proof (cases "\<forall>c\<in>set (x # xs). is_space c")
    case True
    then have "bt trailing_re (x # xs) = Some ([x # xs, []], [])" by (simp add: bt_trailing)
    with True show ?thesis by (simp add: rstrip_Cons)
  next
    case False
    then have "bt trailing_re (x # xs) = None" by (simp add: bt_trailing)
    with False Cons[of "pre @ [x]"] show ?thesis
      by (cases "search trailing_re (pre @ [x]) xs") (simp_all add: rstrip_Cons)
  qed
qed

lemma replace_trailing: "replace_first trailing_re (\<lambda>m. []) line = rstrip line"
  using search_trailing[of "[]" line]
  by (cases "search trailing_re [] line") (simp_all add: replace_first_def)


lemma bt_word_run:
  "bt [StarG WordC, GClose] cs = Some ([takeWhile is_word cs, []], dropWhile is_word cs)"
  by (induction cs) simp_all

lemma bt_annotation:
  "bt annotation_re s =
     (case s of [] \<Rightarrow> None
      | c # cs \<Rightarrow>
          if c = CHR ''@'' \<and> takeWhile is_word cs \<noteq> []
          then Some ([[], ''@'', takeWhile is_word cs, []], dropWhile is_word cs) else None)"
proof (cases s)
  case Nil
  then show ?thesis by (simp add: annotation_re_def)
next
  case (Cons c cs)
  show ?thesis
  proof (cases cs)
    case Nil
    with Cons show ?thesis by (simp add: annotation_re_def)
  next
    case (Cons d ds)
    with \<open>s = c # cs\<close> show ?thesis by (simp add: annotation_re_def bt_word_run)
  qed
qed

lemma groups_annotation: "groups annotation_re [[], ''@'', w, []] None = [CHR ''@'' # w]"
  by (simp add: annotation_re_def)

lemma search_annotation_nonempty:
  "search annotation_re pre s = Some m \<Longrightarrow> matched m \<noteq> []"
proof (induction s arbitrary: pre)
  case Nil
  then show ?case by (simp add: bt_annotation)
next
  case (Cons c cs)
  then show ?case
    by (cases "c = CHR ''@'' \<and> takeWhile is_word cs \<noteq> []") (auto simp: bt_annotation)
qed

lemma search_annotation:
  assumes IH: "\<And>t. length t < n \<Longrightarrow> replace_all annotation_re span_annotation t = wrap_annotations t"
  shows "length u \<le> n \<Longrightarrow>
    (case search annotation_re pre u of None \<Rightarrow> pre @ u
     | Some m \<Rightarrow> before m @ span_annotation m @ replace_all annotation_re span_annotation (after m))
    = pre @ wrap_annotations u"
proof (induction u arbitrary: pre)
  case Nil
  show ?case by (simp add: bt_annotation)
next
  case (Cons c cs)
  show ?case
  proof (cases "c = CHR ''@'' \<and> takeWhile is_word cs \<noteq> []")
    case True
    have "length (dropWhile is_word cs) < n"
      using Cons.prems length_dropWhile_le[of is_word cs] by simp
    from IH[OF this] True show ?thesis
      by (simp add: bt_annotation span_annotation_def dollar1_def groups_annotation)
  next
    case False
    then have b: "bt annotation_re (c # cs) = None" by (auto simp: bt_annotation)
    from Cons.prems have "length cs \<le> n" by simp
    from Cons.IH[OF this, of "pre @ [c]"] b False show ?thesis
      by (cases "search annotation_re (pre @ [c]) cs") auto
  qed
qed

lemma replace_annotations:
  "replace_all annotation_re span_annotation s = wrap_annotations s"
proof (induction s rule: measure_induct_rule[where f = length])
  case (less s)
  have "(case search annotation_re [] s of None \<Rightarrow> [] @ s
     | Some m \<Rightarrow> before m @ span_annotation m @ replace_all annotation_re span_annotation (after m))
    = [] @ wrap_annotations s"
    by (rule search_annotation[where n = "length s"]) (use less in auto)
  then show ?case
    by (cases "search annotation_re [] s")
       (auto simp: replace_all.simps[of _ _ s] dest: search_annotation_nonempty)
qed


subsection \<open>The rendered description\<close>

text \<open>
  The renderer without regular expressions: the description is split into lines, trailing
  whitespace is stripped from each line, the lines that then start with \<^verbatim>\<open>/**\<close> or with
  \<^verbatim>\<open>*/\<close> are dropped, in the lines kept every \<^verbatim>\<open>@\<close> followed by word characters is wrapped
  in the annotation marker, and the lines are joined with line breaks.
\<close>

lemma highlightedDescription_lines:
  "highlightedDescription func =
     join_nl
       (map wrap_annotations
          (filter (\<lambda>line. \<not> prefix ''/**'' line \<and> \<not> prefix ''*/'' line)
             (map rstrip (split_nl (description func)))))"
  by (simp add: highlightedDescription_def replace_trailing replace_annotations)

text \<open>
  C8.  The filter of the renderer, commented \<^verbatim>\<open>// Remove /** and */\<close> in the source, tests
  \<^verbatim>\<open>startsWith\<close>: it removes every line that begins with a delimiter, not only the lines
  that are a delimiter.  For a block whose comment is on one line, as in the documented
  examples, the whole comment line is lost: the rendered description is
  \<^verbatim>\<open>native F takes nothing returns nothing\<close>, while the transformation described, which
  drops only the lines \<^verbatim>\<open>/**\<close> and \<^verbatim>\<open>*/\<close>, keeps the line \<^verbatim>\<open>/** doc */\<close>.
\<close>

theorem C8_one_line_comment_dropped:
  "highlightedDescription
     \<lparr>name = ''F'', signature = ''F(nothing): nothing'',
      description = ''/** doc */\<newline>native F takes nothing returns nothing''\<rparr>
   = ''native F takes nothing returns nothing''
   \<and> spec_highlightedDescription ''/** doc */\<newline>native F takes nothing returns nothing''
   = ''/** doc */\<newline>native F takes nothing returns nothing''
   \<and> highlightedDescription
     \<lparr>name = ''F'', signature = ''F(nothing): nothing'',
      description = ''/** doc */\<newline>native F takes nothing returns nothing''\<rparr>
   \<noteq> spec_highlightedDescription ''/** doc */\<newline>native F takes nothing returns nothing''"
  by (simp add: highlightedDescription_def spec_highlightedDescription_def replace_trailing
      replace_annotations rstrip_def is_space_def is_word_def)


section \<open>The session\<close>

lemma first_rejection_some:
  "(i, Inl err) \<in> set evs \<Longrightarrow> \<exists>e j. first_rejection evs = Some e \<and> (j, Inl e) \<in> set evs"
proof (induction evs rule: first_rejection.induct)
  case 1
  then show ?case by simp
next
  case (2 k e evs)
  show ?case by (rule exI[of _ e], rule exI[of _ k]) simp
next
  case (3 k t evs)
  then show ?case by auto
qed

text \<open>
  C5.  When one of the requests fails, the load fails as a whole: the quick pick shows
  exactly one row, the fetch-failure placeholder, whose detail is the text of the error
  that rejected the load (the first failure to arrive); no handler closure, hence no search
  index, is set up; and the outcome is that of the rejection alone, whatever the other
  requests returned.
\<close>

theorem C5_fetch_failure:
  assumes "(i, Inl err) \<in> set evs"
  shows "\<exists>e. first_rejection evs = Some e \<and> (\<exists>j. (j, Inl e) \<in> set evs)
     \<and> qp_items (fuzzySearch evs) =
         [\<lparr>label = ''Failed to fetch api data'', item_description = ''Check network / urls'',
           detail = Some (String_of e)\<rparr>]
     \<and> handlers (fuzzySearch evs) = None
     \<and> fuzzySearch evs = fuzzySearch_settled (Inl e) fuzzySearch_start"
proof -
  from first_rejection_some[OF assms] obtain e j
    where e: "first_rejection evs = Some e" and j: "(j, Inl e) \<in> set evs" by blast
  from e have p: "Promise_all evs = Inl e" by (simp add: Promise_all_def)
  have "qp_items (fuzzySearch evs) =
         [\<lparr>label = ''Failed to fetch api data'', item_description = ''Check network / urls'',
           detail = Some (String_of e)\<rparr>]"
    by (simp add: fuzzySearch_def p fuzzySearch_settled_def set_items_def)
  moreover have "handlers (fuzzySearch evs) = None"
    by (simp add: fuzzySearch_def p fuzzySearch_settled_def set_items_def set_busy_def
        fuzzySearch_start_def)
  moreover have "fuzzySearch evs = fuzzySearch_settled (Inl e) fuzzySearch_start"
    by (simp add: fuzzySearch_def p)
  ultimately show ?thesis using e j by blast
qed

theorem C5_fetch_failure_witness:
  "(0, Inl (Thrown ''AxiosError: Network Error''))
     \<in> set [(1, Inr ''some text''), (0, Inl (Thrown ''AxiosError: Network Error'')),
            (2, Inl (Thrown ''AxiosError: timeout''))]
   \<and> qp_items (fuzzySearch [(1, Inr ''some text''), (0, Inl (Thrown ''AxiosError: Network Error'')),
            (2, Inl (Thrown ''AxiosError: timeout''))]) =
       [\<lparr>label = ''Failed to fetch api data'', item_description = ''Check network / urls'',
         detail = Some ''AxiosError: Network Error''\<rparr>]
   \<and> handlers (fuzzySearch [(1, Inr ''some text''), (0, Inl (Thrown ''AxiosError: Network Error'')),
            (2, Inl (Thrown ''AxiosError: timeout''))]) = None"
proof -
  let ?evs = "[(1, Inr ''some text''), (0, Inl (Thrown ''AxiosError: Network Error'')),
            (2, Inl (Thrown ''AxiosError: timeout''))]"
  have h: "(0, Inl (Thrown ''AxiosError: Network Error'')) \<in> set ?evs" by simp
  from C5_fetch_failure[OF h] obtain e where
    e: "first_rejection ?evs = Some e" and
    r: "qp_items (fuzzySearch ?evs) =
         [\<lparr>label = ''Failed to fetch api data'', item_description = ''Check network / urls'',
           detail = Some (String_of e)\<rparr>]"
       "handlers (fuzzySearch ?evs) = None" by blast
  from e have "e = Thrown ''AxiosError: Network Error''" by simp
  then have "String_of e = ''AxiosError: Network Error''" by simp
  with r h show ?thesis by simp
qed

text \<open>
  C6.  For a non-empty entry set and a query that is empty after trimming, the rows
  displayed are those of the first 200 entries in extraction order (of all entries when
  there are fewer).  Only the rows are cut: the closure registered by the load holds every
  extracted entry and an index built over every extracted entry, and the handler leaves the
  registered closure as it is.
\<close>

theorem C6_blank_query:
  assumes "apiData env \<noteq> []" and "trim v = []"
  shows "qp_items (onDidChangeValue fuse_search env v st) =
           map (\<lambda>r. \<lparr>label = name r, item_description = signature r, detail = None\<rparr>)
             (take 200 (apiData env))
     \<and> length (qp_items (onDidChangeValue fuse_search env v st)) = min 200 (length (apiData env))
     \<and> handlers (onDidChangeValue fuse_search env v st) = handlers st
     \<and> (parseApiDocumentation texts \<noteq> [] \<longrightarrow>
          handlers (fuzzySearch_settled (Inr texts) st0) =
            Some \<lparr>apiData = parseApiDocumentation texts,
                  fuse = new_Fuse (parseApiDocumentation texts)\<rparr>)"
  using assms
  by (simp add: onDidChangeValue_def set_items_def toItems_def fuzzySearch_settled_def
      set_busy_def Let_def min_def)


theorem C6_blank_query_witness:
  "apiData \<lparr>apiData = replicate 201 \<lparr>name = ''Foo'', signature = ''Foo(nothing): nothing'',
                 description = ''/** doc */\<newline>native Foo takes nothing returns nothing''\<rparr>,
             fuse = new_Fuse []\<rparr> \<noteq> []
   \<and> trim ''  '' = []
   \<and> qp_items (onDidChangeValue (\<lambda>f q. [])
         \<lparr>apiData = replicate 201 \<lparr>name = ''Foo'', signature = ''Foo(nothing): nothing'',
                 description = ''/** doc */\<newline>native Foo takes nothing returns nothing''\<rparr>,
          fuse = new_Fuse []\<rparr> ''  '' fuzzySearch_start)
       = replicate 200 \<lparr>label = ''Foo'', item_description = ''Foo(nothing): nothing'', detail = None\<rparr>
   \<and> parseApiDocumentation [''/** doc */\<newline>native Foo takes nothing returns nothing''] \<noteq> []
   \<and> handlers (fuzzySearch_settled
         (Inr [''/** doc */\<newline>native Foo takes nothing returns nothing'']) fuzzySearch_start)
       = Some \<lparr>apiData = [\<lparr>name = ''Foo'', signature = ''Foo(nothing): nothing'',
                 description = ''/** doc */\<newline>native Foo takes nothing returns nothing''\<rparr>],
               fuse = new_Fuse [\<lparr>name = ''Foo'', signature = ''Foo(nothing): nothing'',
                 description = ''/** doc */\<newline>native Foo takes nothing returns nothing''\<rparr>]\<rparr>"
proof -
  let ?e = "\<lparr>name = ''Foo'', signature = ''Foo(nothing): nothing'',
                 description = ''/** doc */\<newline>native Foo takes nothing returns nothing''\<rparr>"
  let ?env = "\<lparr>apiData = replicate 201 ?e, fuse = new_Fuse []\<rparr>"
  let ?txt = "''/** doc */\<newline>native Foo takes nothing returns nothing''"
  have a: "apiData ?env \<noteq> []" by simp
  have b: "trim ''  '' = []" by (simp add: trim_def is_space_def)
  have p: "parseApiDocumentation [?txt] = [?e]" by (simp add: eval_defs)
  from C6_blank_query[OF a b, of "\<lambda>f q. []" fuzzySearch_start "[?txt]" fuzzySearch_start] a b p
  show ?thesis by simp
qed

text \<open>
  C7 (as stated).  A query that is empty after trimming never reaches the fuzzy search: the
  handler shows the entry list again.  So where the search finds nothing for a blank query,
  the quick pick shows the entries and not the no-matches placeholder.
\<close>

theorem C7_blank_query_counterexample:
  "no_results
     (fuse \<lparr>apiData = [\<lparr>name = ''Foo'', signature = ''Foo(nothing): nothing'',
                 description = ''/** doc */\<newline>native Foo takes nothing returns nothing''\<rparr>],
            fuse = new_Fuse [\<lparr>name = ''Foo'', signature = ''Foo(nothing): nothing'',
                 description = ''/** doc */\<newline>native Foo takes nothing returns nothing''\<rparr>]\<rparr>)
     '' '' = []
   \<and> qp_items (onDidChangeValue no_results
          \<lparr>apiData = [\<lparr>name = ''Foo'', signature = ''Foo(nothing): nothing'',
                 description = ''/** doc */\<newline>native Foo takes nothing returns nothing''\<rparr>],
           fuse = new_Fuse [\<lparr>name = ''Foo'', signature = ''Foo(nothing): nothing'',
                 description = ''/** doc */\<newline>native Foo takes nothing returns nothing''\<rparr>]\<rparr>
          '' '' fuzzySearch_start)
       = [\<lparr>label = ''Foo'', item_description = ''Foo(nothing): nothing'', detail = None\<rparr>]
   \<and> qp_items (onDidChangeValue no_results
          \<lparr>apiData = [\<lparr>name = ''Foo'', signature = ''Foo(nothing): nothing'',
                 description = ''/** doc */\<newline>native Foo takes nothing returns nothing''\<rparr>],
           fuse = new_Fuse [\<lparr>name = ''Foo'', signature = ''Foo(nothing): nothing'',
                 description = ''/** doc */\<newline>native Foo takes nothing returns nothing''\<rparr>]\<rparr>
          '' '' fuzzySearch_start)
       \<noteq> [\<lparr>label = ''no matches'', item_description = ''try different terms'', detail = None\<rparr>]"
  by (simp add: no_results_def onDidChangeValue_def set_items_def toItems_def trim_def is_space_def)

text \<open>
  C7 (amended).  For a query that is not empty after trimming and for which the fuzzy search
  returns no result, the quick pick shows exactly one row, the no-matches placeholder.  The
  handler, on any query, leaves the registered closure (the entry set and the index) and
  the panels as they are.
\<close>

theorem C7_no_matches:
  assumes "trim v \<noteq> []" and "fuse_search (fuse env) v = []"
  shows "qp_items (onDidChangeValue fuse_search env v st) =
           [\<lparr>label = ''no matches'', item_description = ''try different terms'', detail = None\<rparr>]
     \<and> handlers (onDidChangeValue fuse_search env v st) = handlers st
     \<and> (\<forall>q. handlers (onDidChangeValue fuse_search env q st) = handlers st
            \<and> panels (onDidChangeValue fuse_search env q st) = panels st)"
  using assms by (simp add: onDidChangeValue_def set_items_def Let_def)

theorem C7_no_matches_witness:
  "trim ''zzz'' \<noteq> []
   \<and> no_results (fuse \<lparr>apiData = [\<lparr>name = ''Foo'', signature = ''Foo(nothing): nothing'',
                 description = ''/** doc */\<newline>native Foo takes nothing returns nothing''\<rparr>],
               fuse = new_Fuse [\<lparr>name = ''Foo'', signature = ''Foo(nothing): nothing'',
                 description = ''/** doc */\<newline>native Foo takes nothing returns nothing''\<rparr>]\<rparr>) ''zzz''
       = []
   \<and> qp_items (onDidChangeValue no_results
          \<lparr>apiData = [\<lparr>name = ''Foo'', signature = ''Foo(nothing): nothing'',
                 description = ''/** doc */\<newline>native Foo takes nothing returns nothing''\<rparr>],
               fuse = new_Fuse [\<lparr>name = ''Foo'', signature = ''Foo(nothing): nothing'',
                 description = ''/** doc */\<newline>native Foo takes nothing returns nothing''\<rparr>]\<rparr>
          ''zzz'' fuzzySearch_start)
       = [\<lparr>label = ''no matches'', item_description = ''try different terms'', detail = None\<rparr>]"
proof -
  let ?e = "\<lparr>name = ''Foo'', signature = ''Foo(nothing): nothing'',
                 description = ''/** doc */\<newline>native Foo takes nothing returns nothing''\<rparr>"
  let ?env = "\<lparr>apiData = [?e], fuse = new_Fuse [?e]\<rparr>"
  have a: "trim ''zzz'' \<noteq> []" by (simp add: trim_def is_space_def)
  have b: "no_results (fuse ?env) ''zzz'' = []" by (simp add: no_results_def)
  from C7_no_matches[of "''zzz''" no_results ?env fuzzySearch_start, OF a b] a b
  show ?thesis by simp
qed

text \<open>
  C9 (as stated).  The session does write to the quick pick after a dismissal that precedes
  the settlement: dismissed while loading and then given a successful fetch, it sets the
  busy flag and a new list of rows.
\<close>

theorem C9_write_after_dismissal_counterexample:
  "after_dismissal
     (log (fuzzySearch_settled
             (Inr [''/** doc */\<newline>native Baz takes nothing returns nothing''])
             (dismiss fuzzySearch_start)))
   = [SetBusy False,
      SetItems [\<lparr>label = ''Baz'', item_description = ''Baz(nothing): nothing'', detail = None\<rparr>]]"
proof -
  have p: "parseApiDocumentation [''/** doc */\<newline>native Baz takes nothing returns nothing''] =
     [\<lparr>name = ''Baz'', signature = ''Baz(nothing): nothing'',
       description = ''/** doc */\<newline>native Baz takes nothing returns nothing''\<rparr>]"
    by (simp add: eval_defs)
  show ?thesis
    by (simp add: p fuzzySearch_settled_def dismiss_def onDidHide_def fuzzySearch_start_def
        set_items_def set_busy_def toItems_def after_dismissal_def Let_def)
qed

text \<open>
  C9 (amended).  A dismissal that precedes the settlement hides the quick pick without
  disposing of it (the hide handler is registered only after a successful load).  When the
  fetch then settles, with whatever outcome, the session sets the busy flag to false and
  assigns one list of rows to the hidden quick pick, and does nothing else to it: it is
  not shown again.
\<close>

theorem C9_late_settlement:
  "\<not> qp_visible (dismiss fuzzySearch_start) \<and> \<not> qp_disposed (dismiss fuzzySearch_start)
   \<and> after_dismissal (log (fuzzySearch_settled outcome (dismiss fuzzySearch_start))) =
       [SetBusy False, SetItems (qp_items (fuzzySearch_settled outcome (dismiss fuzzySearch_start)))]
   \<and> \<not> qp_visible (fuzzySearch_settled outcome (dismiss fuzzySearch_start))
   \<and> \<not> qp_disposed (fuzzySearch_settled outcome (dismiss fuzzySearch_start))"
  by (cases outcome)
     (simp_all add: fuzzySearch_settled_def dismiss_def onDidHide_def fuzzySearch_start_def
        set_items_def set_busy_def after_dismissal_def Let_def)

lemma panels_qp_hide: "panels (qp_hide st) = panels st"
  by (simp add: qp_hide_def onDidHide_def split: option.splits)

text \<open>
  C10.  When the user selects a row, the entry handed to the detail renderer is the first
  entry of the whole entry set, in extraction order, whose name is the label of the row.
  So for a row that stands for the entry at position \<open>k\<close>, the entry rendered is the one
  at the first position \<open>i \<le> k\<close> with that name: of several entries with one name only
  the first is ever rendered.
\<close>

theorem C10_first_of_name:
  assumes "k < length (apiData env)" and "label picked = name (apiData env ! k)"
  shows "\<exists>i\<le>k. name (apiData env ! i) = label picked
           \<and> (\<forall>j<i. name (apiData env ! j) \<noteq> label picked)
           \<and> find (\<lambda>r. name r = label picked) (apiData env) = Some (apiData env ! i)
           \<and> map shown (panels (onDidChangeSelection env (picked # others) st)) =
               map shown (panels st) @ [apiData env ! i]"
proof -
  let ?P = "\<lambda>r. name r = label picked"
  from assms have "\<exists>x \<in> set (apiData env). ?P x" by (metis nth_mem)
  then obtain x where f: "find ?P (apiData env) = Some x"
    by (cases "find ?P (apiData env)") (auto simp: find_None_iff)
  then obtain i where i: "i < length (apiData env)" "?P (apiData env ! i)" "x = apiData env ! i"
    "\<forall>j<i. \<not> ?P (apiData env ! j)" by (auto simp: find_Some_iff)
  from i(4) assms have "i \<le> k" by (metis not_le_imp_less)
  moreover have "map shown (panels (onDidChangeSelection env (picked # others) st)) =
               map shown (panels st) @ [apiData env ! i]"
    by (simp add: onDidChangeSelection_def f i(3) panels_qp_hide showFunctionDetails_def)
  ultimately show ?thesis using i f by blast
qed

theorem C10_first_of_name_witness:
  "(1::nat) < length (apiData
       \<lparr>apiData = [\<lparr>name = ''Dup'', signature = ''Dup(integer a): nothing'', description = ''first''\<rparr>,
                   \<lparr>name = ''Dup'', signature = ''Dup(real b): nothing'', description = ''second''\<rparr>],
        fuse = new_Fuse []\<rparr>)
   \<and> map shown (panels (onDidChangeSelection
        \<lparr>apiData = [\<lparr>name = ''Dup'', signature = ''Dup(integer a): nothing'', description = ''first''\<rparr>,
                   \<lparr>name = ''Dup'', signature = ''Dup(real b): nothing'', description = ''second''\<rparr>],
         fuse = new_Fuse []\<rparr>
        [\<lparr>label = ''Dup'', item_description = ''Dup(real b): nothing'', detail = None\<rparr>]
        fuzzySearch_start))
     = [\<lparr>name = ''Dup'', signature = ''Dup(integer a): nothing'', description = ''first''\<rparr>]"
proof -
  let ?e1 = "\<lparr>name = ''Dup'', signature = ''Dup(integer a): nothing'', description = ''first''\<rparr>"
  let ?e2 = "\<lparr>name = ''Dup'', signature = ''Dup(real b): nothing'', description = ''second''\<rparr>"
  let ?env = "\<lparr>apiData = [?e1, ?e2], fuse = new_Fuse []\<rparr>"
  let ?row = "\<lparr>label = ''Dup'', item_description = ''Dup(real b): nothing'', detail = None\<rparr>"
  have a: "(1::nat) < length (apiData ?env)" by simp
  have b: "label ?row = name (apiData ?env ! 1)" by simp
  from C10_first_of_name[OF a b, of "[]" fuzzySearch_start] obtain i where
    f: "find (\<lambda>r. name r = label ?row) (apiData ?env) = Some (apiData ?env ! i)" and
    r: "map shown (panels (onDidChangeSelection ?env [?row] fuzzySearch_start)) =
               map shown (panels fuzzySearch_start) @ [apiData ?env ! i]" by blast
  from f have "apiData ?env ! i = ?e1" by simp
  with r a show ?thesis by (simp add: fuzzySearch_start_def)
qed

end
